theory Spec2Isabelle
  imports Main "HOL-Library.Word"
begin

section \<open>Outcomes of an operation\<close>

text \<open>
  The C++ code has undefined behaviour where it dereferences a null or invalid pointer or
  indexes a \<^verbatim>\<open>std::vector\<close> out of range, and it aborts where an \<^verbatim>\<open>assert\<close>
  fails. Each of these is a \<open>Fault\<close> of the model; \<open>OutOfRange\<close> carries the index
  that was used. The pointer-chasing \<^verbatim>\<open>while\<close> loops
  need not terminate on a cyclic chain: they run on fuel, and \<open>Timeout\<close> is the outcome of a
  loop that used all of it.
\<close>

datatype fault = NullDeref | BadPointer | OutOfRange int | AssertFail

datatype 'a result = Ok 'a | Fault fault | Timeout

fun andThen :: "'a result \<Rightarrow> ('a \<Rightarrow> 'b result) \<Rightarrow> 'b result" where
  "andThen (Ok x) f = f x"
| "andThen (Fault e) f = Fault e"
| "andThen Timeout f = Timeout"

section \<open>PersistentSkiplist: nodes and memory\<close>

text \<open>
  A \<^verbatim>\<open>Node*\<close> is \<open>None\<close> (NULL) or the address of a node; memory is the list of the
  nodes allocated so far, a node's address being its position, and \<^verbatim>\<open>new\<close> appends.
  The fields \<^verbatim>\<open>value\<close> and \<^verbatim>\<open>next\<close> of the source are \<open>val\<close> and \<open>nxt\<close> here
  (the source's names are keywords of Isabelle). \<^verbatim>\<open>size_t\<close> values are
  natural numbers, with the wrap-around at \<open>2 ^ 64\<close> written out where the code adds or
  subtracts; the \<^verbatim>\<open>int\<close> loop counters are integers.
\<close>

type_synonym ptr = "nat option"

record Node =
  key :: string
  val :: string
  level :: nat
  nxt :: "ptr list"
  prev :: "ptr list"

definition new_Node :: "string \<Rightarrow> string \<Rightarrow> nat \<Rightarrow> Node" where
  "new_Node k v lvl =
     \<lparr>key = k, val = v, level = lvl, nxt = replicate lvl None, prev = replicate lvl None\<rparr>"

definition GetSize :: "Node \<Rightarrow> nat" where
  "GetSize n = (length (key n) + length (val n)) mod 2 ^ 64"

definition max_level :: nat where
  "max_level = 32"

text \<open>
  The skiplist object. \<open>compared\<close> is not a field of the class: it records, most recent
  first, the address of every node whose \<^verbatim>\<open>key\<close> was handed to the comparator.
\<close>

record skiplist =
  heap :: "Node list"
  current_level :: nat
  current_size :: nat
  comparator :: "string \<Rightarrow> string \<Rightarrow> int"
  head :: ptr
  tail :: ptr
  compared :: "nat list"

definition deref :: "Node list \<Rightarrow> ptr \<Rightarrow> Node result" where
  "deref h p =
     (case p of
        None \<Rightarrow> Fault NullDeref
      | Some a \<Rightarrow> if a < length h then Ok (h ! a) else Fault BadPointer)"

definition vec_at :: "'a list \<Rightarrow> int \<Rightarrow> 'a result" where
  "vec_at xs i = (if 0 \<le> i \<and> nat i < length xs then Ok (xs ! nat i) else Fault (OutOfRange i))"

definition get_level :: "skiplist \<Rightarrow> ptr \<Rightarrow> nat result" where
  "get_level s p = andThen (deref (heap s) p) (\<lambda>n. Ok (level n))"

definition get_next :: "skiplist \<Rightarrow> ptr \<Rightarrow> int \<Rightarrow> ptr result" where
  "get_next s p i = andThen (deref (heap s) p) (\<lambda>n. vec_at (nxt n) i)"

definition get_prev :: "skiplist \<Rightarrow> ptr \<Rightarrow> int \<Rightarrow> ptr result" where
  "get_prev s p i = andThen (deref (heap s) p) (\<lambda>n. vec_at (prev n) i)"

definition set_next :: "skiplist \<Rightarrow> ptr \<Rightarrow> int \<Rightarrow> ptr \<Rightarrow> skiplist result" where
  "set_next s p i q =
     (case p of
        None \<Rightarrow> Fault NullDeref
      | Some a \<Rightarrow>
          andThen (deref (heap s) p) (\<lambda>n.
          andThen (vec_at (nxt n) i) (\<lambda>old.
          Ok (s\<lparr>heap := (heap s)[a := n\<lparr>nxt := (nxt n)[nat i := q]\<rparr>]\<rparr>))))"

definition set_prev :: "skiplist \<Rightarrow> ptr \<Rightarrow> int \<Rightarrow> ptr \<Rightarrow> skiplist result" where
  "set_prev s p i q =
     (case p of
        None \<Rightarrow> Fault NullDeref
      | Some a \<Rightarrow>
          andThen (deref (heap s) p) (\<lambda>n.
          andThen (vec_at (prev n) i) (\<lambda>old.
          Ok (s\<lparr>heap := (heap s)[a := n\<lparr>prev := (prev n)[nat i := q]\<rparr>]\<rparr>))))"

text \<open>
  \<^verbatim>\<open>comparator->Compare(a->key, b)\<close> and \<^verbatim>\<open>Compare(b, a->key)\<close>: the key of the node
  \<open>p\<close> is read and compared, and the node is recorded in \<open>compared\<close>.
\<close>

definition compare_key :: "skiplist \<Rightarrow> ptr \<Rightarrow> string \<Rightarrow> (skiplist \<times> int) result" where
  "compare_key s p k =
     (case p of
        None \<Rightarrow> Fault NullDeref
      | Some a \<Rightarrow>
          andThen (deref (heap s) p) (\<lambda>n.
          Ok (s\<lparr>compared := a # compared s\<rparr>, comparator s (key n) k)))"

definition key_compare :: "skiplist \<Rightarrow> string \<Rightarrow> ptr \<Rightarrow> (skiplist \<times> int) result" where
  "key_compare s k p =
     (case p of
        None \<Rightarrow> Fault NullDeref
      | Some a \<Rightarrow>
          andThen (deref (heap s) p) (\<lambda>n.
          Ok (s\<lparr>compared := a # compared s\<rparr>, comparator s k (key n))))"

section \<open>PersistentSkiplist: construction\<close>

text \<open>
  \<^verbatim>\<open>MakeNode\<close> allocates the node; its two \<^verbatim>\<open>clflush\<close> calls write cache lines back
  and change nothing of the state modelled here, as every other \<^verbatim>\<open>clflush\<close> of the
  skiplist.
\<close>

definition MakeNode :: "Node list \<Rightarrow> string \<Rightarrow> string \<Rightarrow> nat \<Rightarrow> Node list \<times> ptr" where
  "MakeNode h k v lvl = (h @ [new_Node k v lvl], Some (length h))"

text \<open>
  A step after a failed one does not run: the congruence rule hands this fact to the
  termination proofs of the loops.
\<close>

lemma andThen_cong [fundef_cong]:
  "m = m' \<Longrightarrow> (\<And>x. m' = Ok x \<Longrightarrow> f x = f' x) \<Longrightarrow> andThen m f = andThen m' f'"
  by (cases m') auto

lemma set_next_current_level:
  "set_next s p i q = Ok s' \<Longrightarrow> current_level s' = current_level s"
  by (cases p; cases "deref (heap s) p")
     (auto simp: set_next_def vec_at_def split: if_splits)

lemma set_prev_current_level:
  "set_prev s p i q = Ok s' \<Longrightarrow> current_level s' = current_level s"
  by (cases p; cases "deref (heap s) p")
     (auto simp: set_prev_def vec_at_def split: if_splits)

function link_sentinels :: "skiplist \<Rightarrow> int \<Rightarrow> skiplist result" where
  "link_sentinels s i =
     (if i < int max_level then
        andThen (set_next s (head s) i (tail s)) (\<lambda>s1.
        andThen (set_prev s1 (tail s1) i (head s1)) (\<lambda>s2.
        link_sentinels s2 (i + 1)))
      else Ok s)"
  by pat_completeness auto
termination
  by (relation "measure (\<lambda>(s, i). nat (int max_level - i))") auto

text \<open>
  The constructor of an empty skiplist, in a memory that holds the nodes \<open>h\<close> already.
\<close>

definition PersistentSkiplist :: "(string \<Rightarrow> string \<Rightarrow> int) \<Rightarrow> Node list \<Rightarrow> skiplist result" where
  "PersistentSkiplist cmp h =
     (let (h1, hd_p) = MakeNode h [] [] max_level;
          (h2, tl_p) = MakeNode h1 [] [] max_level
      in andThen
           (link_sentinels
              \<lparr>heap = h2, current_level = 0, current_size = 0, comparator = cmp,
               head = hd_p, tail = tl_p, compared = []\<rparr> 0)
           (\<lambda>s. Ok (s\<lparr>current_size := 0\<rparr>)))"

section \<open>PersistentSkiplist: search\<close>

text \<open>
  The inner \<^verbatim>\<open>while\<close> of \<^verbatim>\<open>FindGreaterOrEqual\<close> at level \<open>i\<close>: the test for the tail
  comes first, and only a successor that is not the tail is compared.
\<close>

fun fge_walk :: "nat \<Rightarrow> skiplist \<Rightarrow> string \<Rightarrow> ptr \<Rightarrow> int \<Rightarrow> (skiplist \<times> ptr) result" where
  "fge_walk 0 s k node i = Timeout"
| "fge_walk (Suc fuel) s k node i =
     andThen (get_next s node i) (\<lambda>nx.
       if nx \<noteq> tail s then
         andThen (compare_key s nx k) (\<lambda>(s1, c).
           if c < 0 then fge_walk fuel s1 k nx i else Ok (s1, node))
       else Ok (s, node))"

text \<open>The outer loop \<^verbatim>\<open>for (auto i = current_level; i-- > 0;)\<close>.\<close>

fun fge_levels :: "nat \<Rightarrow> nat \<Rightarrow> skiplist \<Rightarrow> string \<Rightarrow> ptr \<Rightarrow> (skiplist \<times> ptr) result" where
  "fge_levels fuel 0 s k node = Ok (s, node)"
| "fge_levels fuel (Suc i) s k node =
     andThen (fge_walk fuel s k node (int i)) (\<lambda>(s1, node1).
     fge_levels fuel i s1 k node1)"

definition FindGreaterOrEqual :: "nat \<Rightarrow> skiplist \<Rightarrow> string \<Rightarrow> (skiplist \<times> ptr) result" where
  "FindGreaterOrEqual fuel s k =
     andThen (fge_levels fuel (current_level s) s k (head s)) (\<lambda>(s1, node).
     andThen (get_next s1 node 0) (\<lambda>r. Ok (s1, r)))"

definition Find :: "nat \<Rightarrow> skiplist \<Rightarrow> string \<Rightarrow> (skiplist \<times> ptr) result" where
  "Find fuel s k =
     andThen (FindGreaterOrEqual fuel s k) (\<lambda>(s1, node).
     andThen (key_compare s1 k node) (\<lambda>(s2, c).
     if c = 0 then Ok (s2, node) else Ok (s2, None)))"

section \<open>PersistentSkiplist: Insert\<close>

text \<open>\<^verbatim>\<open>while (next_node->level <= i) next_node = next_node->next[i-1];\<close>\<close>

fun climb_next :: "nat \<Rightarrow> skiplist \<Rightarrow> ptr \<Rightarrow> int \<Rightarrow> ptr result" where
  "climb_next 0 s p i = Timeout"
| "climb_next (Suc fuel) s p i =
     andThen (get_level s p) (\<lambda>l.
       if int l \<le> i then andThen (get_next s p (i - 1)) (\<lambda>q. climb_next fuel s q i)
       else Ok p)"

text \<open>\<^verbatim>\<open>while (prev_node->level <= i) prev_node = prev_node->prev[i-1];\<close>\<close>

fun climb_prev :: "nat \<Rightarrow> skiplist \<Rightarrow> ptr \<Rightarrow> int \<Rightarrow> ptr result" where
  "climb_prev 0 s p i = Timeout"
| "climb_prev (Suc fuel) s p i =
     andThen (get_level s p) (\<lambda>l.
       if int l \<le> i then andThen (get_prev s p (i - 1)) (\<lambda>q. climb_prev fuel s q i)
       else Ok p)"

text \<open>The linking loop \<^verbatim>\<open>for (auto i = 0; i < level; i++)\<close> of \<^verbatim>\<open>Insert\<close>.\<close>

function insert_links ::
  "nat \<Rightarrow> skiplist \<Rightarrow> ptr \<Rightarrow> nat \<Rightarrow> int \<Rightarrow> ptr \<Rightarrow> ptr \<Rightarrow> skiplist result" where
  "insert_links fuel s new_node lvl i next_node prev_node =
     (if i < int lvl then
        andThen (climb_next fuel s next_node i) (\<lambda>next_node1.
        andThen (climb_prev fuel s prev_node i) (\<lambda>prev_node1.
        andThen (set_next s new_node i next_node1) (\<lambda>s1.
        andThen (set_prev s1 next_node1 i new_node) (\<lambda>s2.
        andThen (set_prev s2 new_node i prev_node1) (\<lambda>s3.
        andThen (set_next s3 prev_node1 i new_node) (\<lambda>s4.
        insert_links fuel s4 new_node lvl (i + 1) next_node1 prev_node1))))))
      else Ok s)"
  by pat_completeness auto
termination
  by (relation "measure (\<lambda>(fuel, s, new_node, lvl, i, nn, pn). nat (int lvl - i))") auto

text \<open>
  \<^verbatim>\<open>Insert\<close>; \<open>lvl\<close> is the value that \<^verbatim>\<open>RandomLevel()\<close> returned, between 1 and
  \<open>max_level\<close>.
\<close>

definition Insert ::
  "nat \<Rightarrow> skiplist \<Rightarrow> string \<Rightarrow> string \<Rightarrow> nat \<Rightarrow> (skiplist \<times> ptr) result" where
  "Insert fuel s k v lvl =
     andThen (FindGreaterOrEqual fuel s k) (\<lambda>(s1, node).
     andThen (get_prev s1 node 0) (\<lambda>prev_node.
     andThen (compare_key s1 node k) (\<lambda>(s2, c).
     andThen (if c = 0 then get_next s2 node 0 else Ok node) (\<lambda>next_node.
       let (h, new_node) = (heap s2 @ [new_Node k v lvl], Some (length (heap s2)));
           s3 = s2\<lparr>heap := h\<rparr>;
           s4 = (if lvl > current_level s3 then s3\<lparr>current_level := lvl\<rparr> else s3)
       in andThen (insert_links fuel s4 new_node lvl 0 next_node prev_node) (\<lambda>s5.
          andThen (deref (heap s5) new_node) (\<lambda>n.
          Ok (s5\<lparr>current_size := (current_size s5 + GetSize n) mod 2 ^ 64\<rparr>, new_node)))))))"

section \<open>PersistentSkiplist: Erase\<close>

text \<open>\<^verbatim>\<open>while (left->level <= level+1) left = left->prev[level];\<close>\<close>

fun retreat_left :: "nat \<Rightarrow> skiplist \<Rightarrow> ptr \<Rightarrow> int \<Rightarrow> ptr result" where
  "retreat_left 0 s p lv = Timeout"
| "retreat_left (Suc fuel) s p lv =
     andThen (get_level s p) (\<lambda>l.
       if int l \<le> lv + 1 then andThen (get_prev s p lv) (\<lambda>q. retreat_left fuel s q lv)
       else Ok p)"

text \<open>\<^verbatim>\<open>while (right->level <= level+1) right = right->next[level];\<close>\<close>

fun advance_right :: "nat \<Rightarrow> skiplist \<Rightarrow> ptr \<Rightarrow> int \<Rightarrow> ptr result" where
  "advance_right 0 s p lv = Timeout"
| "advance_right (Suc fuel) s p lv =
     andThen (get_level s p) (\<lambda>l.
       if int l \<le> lv + 1 then andThen (get_next s p lv) (\<lambda>q. advance_right fuel s q lv)
       else Ok p)"

text \<open>The unlinking loop \<^verbatim>\<open>for (int level = 0; level < current_level; level++)\<close>.\<close>

function erase_links :: "nat \<Rightarrow> skiplist \<Rightarrow> int \<Rightarrow> ptr \<Rightarrow> ptr \<Rightarrow> skiplist result" where
  "erase_links fuel s lv left right =
     (if lv < int (current_level s) then
        andThen (set_next s left lv right) (\<lambda>s1.
        andThen (set_prev s1 right lv left) (\<lambda>s2.
        andThen (retreat_left fuel s2 left lv) (\<lambda>left1.
        andThen (advance_right fuel s2 right lv) (\<lambda>right1.
        erase_links fuel s2 (lv + 1) left1 right1))))
      else Ok s)"
  by pat_completeness auto
termination
  by (relation "measure (\<lambda>(fuel, s, lv, l, r). nat (int (current_level s) - lv))")
     (auto dest!: set_next_current_level set_prev_current_level)

text \<open>
  The shrinking loop that ends \<^verbatim>\<open>Erase\<close>:
  \<^verbatim>\<open>while (head->next[current_level] == tail && tail->prev[current_level] == head) current_level--;\<close>
  \<open>shrink_test\<close> is its condition (the second conjunct is read only when the first
  holds) and \<open>decrement_level\<close> its body: the decrement is one of a \<^verbatim>\<open>size_t\<close>, and
  at 0 it wraps to \<open>2 ^ 64 - 1\<close>.
\<close>

definition shrink_test :: "skiplist \<Rightarrow> bool result" where
  "shrink_test s =
     andThen (get_next s (head s) (int (current_level s))) (\<lambda>hn.
       if hn = tail s then
         andThen (get_prev s (tail s) (int (current_level s))) (\<lambda>tp. Ok (tp = head s))
       else Ok False)"

definition decrement_level :: "skiplist \<Rightarrow> skiplist" where
  "decrement_level s =
     s\<lparr>current_level := (if current_level s = 0 then 2 ^ 64 - 1 else current_level s - 1)\<rparr>"

fun shrink_level :: "nat \<Rightarrow> skiplist \<Rightarrow> skiplist result" where
  "shrink_level 0 s = Timeout"
| "shrink_level (Suc fuel) s =
     andThen (shrink_test s) (\<lambda>again.
       if again then shrink_level fuel (decrement_level s) else Ok s)"

definition Erase :: "nat \<Rightarrow> skiplist \<Rightarrow> ptr \<Rightarrow> ptr \<Rightarrow> skiplist result" where
  "Erase fuel s first_node last_node =
     andThen (get_prev s first_node 0) (\<lambda>left.
     andThen (get_next s last_node 0) (\<lambda>right.
     andThen (erase_links fuel s 0 left right) (\<lambda>s1.
     shrink_level fuel s1)))"

section \<open>PersistentSkiplist: adoption of an existing chain\<close>

text \<open>\<^verbatim>\<open>cmp->Compare(a->key, b->key)\<close> on two nodes: both keys are handed to the comparator.\<close>

definition compare_nodes :: "skiplist \<Rightarrow> ptr \<Rightarrow> ptr \<Rightarrow> (skiplist \<times> int) result" where
  "compare_nodes s p q =
     (case p of
        None \<Rightarrow> Fault NullDeref
      | Some a \<Rightarrow>
          (case q of
             None \<Rightarrow> Fault NullDeref
           | Some b \<Rightarrow>
               andThen (deref (heap s) p) (\<lambda>n.
               andThen (deref (heap s) q) (\<lambda>m.
               Ok (s\<lparr>compared := b # a # compared s\<rparr>, comparator s (key n) (key m))))))"

text \<open>
  The \<^verbatim>\<open>while\<close> loop of the second constructor. Its two inner loops are those of
  \<^verbatim>\<open>Insert\<close>, at \<open>i = current_level\<close>.
\<close>

fun adopt_loop :: "nat \<Rightarrow> skiplist \<Rightarrow> ptr \<Rightarrow> ptr \<Rightarrow> ptr \<Rightarrow> ptr \<Rightarrow> skiplist result" where
  "adopt_loop 0 s first_node last_node left right = Timeout"
| "adopt_loop (Suc fuel) s first_node last_node left right =
     andThen (compare_nodes s left last_node) (\<lambda>(s1, c1).
       if c1 < 0 then
         andThen (compare_nodes s1 first_node right) (\<lambda>(s2, c2).
           if c2 < 0 then
             andThen (set_next s2 (head s2) (int (current_level s2)) left) (\<lambda>s3.
             andThen (set_prev s3 left (int (current_level s3)) (head s3)) (\<lambda>s4.
             andThen (set_prev s4 (tail s4) (int (current_level s4)) right) (\<lambda>s5.
             andThen (set_next s5 right (int (current_level s5)) (tail s5)) (\<lambda>s6.
               let s7 = s6\<lparr>current_level := (current_level s6 + 1) mod 2 ^ 64\<rparr>
               in andThen (climb_next fuel s7 left (int (current_level s7))) (\<lambda>left1.
                  andThen (climb_prev fuel s7 right (int (current_level s7))) (\<lambda>right1.
                  adopt_loop fuel s7 first_node last_node left1 right1))))))
           else Ok s2)
       else Ok s1)"

definition PersistentSkiplist_adopt ::
  "nat \<Rightarrow> (string \<Rightarrow> string \<Rightarrow> int) \<Rightarrow> Node list \<Rightarrow> ptr \<Rightarrow> ptr \<Rightarrow> skiplist result" where
  "PersistentSkiplist_adopt fuel cmp h first_node last_node =
     andThen (PersistentSkiplist cmp h) (\<lambda>s.
     adopt_loop fuel (s\<lparr>current_level := 0\<rparr>) first_node last_node first_node last_node)"

definition ApproximateMemoryUsage :: "skiplist \<Rightarrow> nat" where
  "ApproximateMemoryUsage s = current_size s"

section \<open>PersistentSkiplist: clients and observations\<close>

text \<open>
  The comparator is a collaborator of the skiplist, and the operations above take any. The
  examples use the byte-wise order: compare byte by byte, the shorter string first when one
  is a prefix of the other.
\<close>

fun bytewise :: "string \<Rightarrow> string \<Rightarrow> int" where
  "bytewise [] [] = 0"
| "bytewise [] (y # ys) = - 1"
| "bytewise (x # xs) [] = 1"
| "bytewise (x # xs) (y # ys) =
     (if (of_char x :: nat) < of_char y then - 1
      else if (of_char y :: nat) < of_char x then 1
      else bytewise xs ys)"

text \<open>A client's calls, and a sequence of them run from the outcome of a constructor.\<close>

datatype call = CallInsert string string nat | CallErase ptr ptr

fun do_call :: "nat \<Rightarrow> skiplist \<Rightarrow> call \<Rightarrow> skiplist result" where
  "do_call fuel s (CallInsert k v lvl) = andThen (Insert fuel s k v lvl) (\<lambda>(s1, n). Ok s1)"
| "do_call fuel s (CallErase a b) = Erase fuel s a b"

fun do_calls :: "nat \<Rightarrow> skiplist result \<Rightarrow> call list \<Rightarrow> skiplist result" where
  "do_calls fuel r [] = r"
| "do_calls fuel r (c # cs) = do_calls fuel (andThen r (\<lambda>s. do_call fuel s c)) cs"

text \<open>
  Walking \<^verbatim>\<open>next[0]\<close> from the node \<open>p\<close> until the tail: the nodes met, the tail
  excluded.
\<close>

fun level0_walk :: "nat \<Rightarrow> skiplist \<Rightarrow> ptr \<Rightarrow> ptr list result" where
  "level0_walk 0 s p = Timeout"
| "level0_walk (Suc fuel) s p =
     andThen (get_next s p 0) (\<lambda>q.
       if q = tail s then Ok []
       else andThen (level0_walk fuel s q) (\<lambda>ps. Ok (q # ps)))"

fun nodes_at :: "skiplist \<Rightarrow> ptr list \<Rightarrow> Node list result" where
  "nodes_at s [] = Ok []"
| "nodes_at s (p # ps) =
     andThen (deref (heap s) p) (\<lambda>n. andThen (nodes_at s ps) (\<lambda>ns. Ok (n # ns)))"

definition live_nodes :: "nat \<Rightarrow> skiplist result \<Rightarrow> ptr list result" where
  "live_nodes fuel r = andThen r (\<lambda>s. level0_walk fuel s (head s))"

definition live_keys :: "nat \<Rightarrow> skiplist result \<Rightarrow> string list result" where
  "live_keys fuel r =
     andThen r (\<lambda>s. andThen (level0_walk fuel s (head s)) (\<lambda>ps.
     andThen (nodes_at s ps) (\<lambda>ns. Ok (map key ns))))"

definition live_levels :: "nat \<Rightarrow> skiplist result \<Rightarrow> nat list result" where
  "live_levels fuel r =
     andThen r (\<lambda>s. andThen (level0_walk fuel s (head s)) (\<lambda>ps.
     andThen (nodes_at s ps) (\<lambda>ns. Ok (map level ns))))"

definition live_bytes :: "nat \<Rightarrow> skiplist result \<Rightarrow> nat result" where
  "live_bytes fuel r =
     andThen r (\<lambda>s. andThen (level0_walk fuel s (head s)) (\<lambda>ps.
     andThen (nodes_at s ps) (\<lambda>ns.
     Ok (sum_list (map (\<lambda>n. length (key n) + length (val n)) ns)))))"

definition level_after :: "skiplist result \<Rightarrow> nat result" where
  "level_after r = andThen r (\<lambda>s. Ok (current_level s))"

definition size_after :: "skiplist result \<Rightarrow> nat result" where
  "size_after r = andThen r (\<lambda>s. Ok (ApproximateMemoryUsage s))"

definition sentinels :: "skiplist result \<Rightarrow> (ptr \<times> ptr) result" where
  "sentinels r = andThen r (\<lambda>s. Ok (head s, tail s))"

text \<open>What \<^verbatim>\<open>Find\<close> returns, and the nodes whose keys it handed to the comparator.\<close>

definition found :: "nat \<Rightarrow> skiplist result \<Rightarrow> string \<Rightarrow> ptr result" where
  "found fuel r k = andThen r (\<lambda>s. andThen (Find fuel s k) (\<lambda>(s1, p). Ok p))"

definition compared_by_Find :: "nat \<Rightarrow> skiplist result \<Rightarrow> string \<Rightarrow> nat list result" where
  "compared_by_Find fuel r k =
     andThen r (\<lambda>s.
     andThen (Find fuel (s\<lparr>compared := []\<rparr>) k) (\<lambda>(s1, p). Ok (compared s1)))"

definition inserted_bytes :: "call list \<Rightarrow> nat" where
  "inserted_bytes cs =
     sum_list (map (\<lambda>c. case c of CallInsert k v lvl \<Rightarrow> length k + length v | CallErase a b \<Rightarrow> 0) cs)"

text \<open>
  Two states with the same \<^verbatim>\<open>current_size\<close> whose nodes hold, address by address, the
  same keys and values: what relinking leaves as it was.
\<close>

definition same_contents :: "skiplist \<Rightarrow> skiplist \<Rightarrow> bool" where
  "same_contents s s' =
     (current_size s' = current_size s \<and> map key (heap s') = map key (heap s)
      \<and> map val (heap s') = map val (heap s))"

section \<open>Index\<close>

text \<open>
  The backing tree, \<^verbatim>\<open>clflush\<close>, the mutex, the condition variable and the thread are
  collaborators of \<^verbatim>\<open>Index\<close>: a call to one of them is an event of the trace, in
  program order. A flush names the object it covers and the number of bytes: the metadata
  block at an address, or the four bytes of the \<^verbatim>\<open>uint32_t\<close> that \<^verbatim>\<open>key\<close> refers to.
  \<^verbatim>\<open>sizeof(IndexMeta)\<close> is the parameter \<open>sz\<close>: the type is declared outside these sources.
\<close>

type_synonym u32 = "32 word"

datatype region = MetaBlock nat | KeyBytes u32

datatype event =
    Clflush region nat
  | TreeSearch u32
  | TreeInsert u32 nat
  | TreeUpdate u32 u32 nat
  | Lock
  | Unlock
  | Signal
  | Wait
  | CreateThread

text \<open>The field \<^verbatim>\<open>key\<close> of \<^verbatim>\<open>KeyAndMeta\<close> is \<open>ukey\<close> here: \<open>key\<close> is the node's.\<close>

record KeyAndMeta =
  ukey :: u32
  prev_file_number :: u32
  meta :: nat

record Index =
  queue :: "KeyAndMeta list"
  bgstarted :: bool
  free :: bool
  trace :: "event list"

definition emit :: "event list \<Rightarrow> Index \<Rightarrow> Index" where
  "emit es st = st\<lparr>trace := trace st @ es\<rparr>"

definition Index_new :: Index where
  "Index_new = \<lparr>queue = [], bgstarted = False, free = True, trace = []\<rparr>"







definition Index_Insert :: "nat \<Rightarrow> Index \<Rightarrow> u32 \<Rightarrow> nat \<Rightarrow> Index" where
  "Index_Insert sz st k m =
     emit [TreeInsert k m] (emit [Clflush (KeyBytes k) 4] (emit [Clflush (MetaBlock m) sz] st))"

definition Index_Update :: "Index \<Rightarrow> u32 \<Rightarrow> u32 \<Rightarrow> nat \<Rightarrow> Index" where
  "Index_Update st k fnumber m = emit [TreeUpdate k fnumber m] st"

definition AsyncInsert :: "Index \<Rightarrow> KeyAndMeta \<Rightarrow> Index" where
  "AsyncInsert st key_and_meta =
     (let st1 = emit [Lock] st;
          st2 = (if \<not> bgstarted st1 then emit [CreateThread] (st1\<lparr>bgstarted := True\<rparr>) else st1);
          st3 = (if queue st2 = [] then emit [Signal] st2 else st2);
          st4 = st3\<lparr>queue := queue st3 @ [key_and_meta]\<rparr>
      in emit [Unlock] st4)"

text \<open>The draining loop \<^verbatim>\<open>for (;!queue_.empty();)\<close> of \<^verbatim>\<open>Runner\<close>.\<close>

function drain :: "nat \<Rightarrow> Index \<Rightarrow> Index" where
  "drain sz st =
     (if queue st \<noteq> [] then
        let k = ukey (hd (queue st));
            fnumber = prev_file_number (hd (queue st));
            v = meta (hd (queue st));
            st1 = st\<lparr>queue := tl (queue st)\<rparr>
        in if fnumber = 0 then drain sz (Index_Insert sz st1 k v)
           else drain sz (Index_Update st1 k fnumber v)
      else st)"
  by pat_completeness auto
termination
  by (relation "measure (\<lambda>(sz, st). length (queue st))")
     (auto simp: Index_Insert_def Index_Update_def emit_def)

text \<open>
  One turn of the endless loop of \<^verbatim>\<open>Runner\<close>. On an empty queue the thread waits on the
  condition variable and is \<open>Blocked\<close>; otherwise it drains the queue under the lock. A
  failed \<^verbatim>\<open>assert\<close> is \<open>Aborted\<close>.
\<close>

datatype turn = Blocked Index | Completed Index | Aborted

definition Runner_turn :: "nat \<Rightarrow> Index \<Rightarrow> turn" where
  "Runner_turn sz st =
     (let st1 = emit [Lock] st
      in if queue st1 = [] then Blocked (emit [Wait] st1)
         else if \<not> length (queue st1) > 0 then Aborted
         else let st2 = drain sz st1
              in if length (queue st2) = 0 then Completed (emit [Unlock] st2) else Aborted)"

text \<open>
  \<^verbatim>\<open>AddQueue\<close> swaps the caller's deque with the queue: the result is the index and
  what the caller's deque holds afterwards.
\<close>

definition AddQueue :: "Index \<Rightarrow> KeyAndMeta list \<Rightarrow> (Index \<times> KeyAndMeta list) result" where
  "AddQueue st batch =
     (let st1 = emit [Lock] st
      in if length (queue st1) \<noteq> 0 then Fault AssertFail
         else
           let (st2, batch1) = (st1\<lparr>queue := batch\<rparr>, queue st1);
               st3 = (if \<not> bgstarted st2 then emit [CreateThread] (st2\<lparr>bgstarted := True\<rparr>)
                      else st2)
           in Ok (emit [Unlock] (emit [Signal] st3), batch1))"

text \<open>
  For the statements below: the events one queued entry stands for, applying one entry, and
  the value of a string of decimal digits.
\<close>

definition entry_events :: "nat \<Rightarrow> KeyAndMeta \<Rightarrow> event list" where
  "entry_events sz e =
     (if prev_file_number e = 0
      then [Clflush (MetaBlock (meta e)) sz, Clflush (KeyBytes (ukey e)) 4,
            TreeInsert (ukey e) (meta e)]
      else [TreeUpdate (ukey e) (prev_file_number e) (meta e)])"

definition apply_entry :: "nat \<Rightarrow> Index \<Rightarrow> KeyAndMeta \<Rightarrow> Index" where
  "apply_entry sz st e =
     (if prev_file_number e = 0 then Index_Insert sz st (ukey e) (meta e)
      else Index_Update st (ukey e) (prev_file_number e) (meta e))"



text \<open>
  A trace read from its first event on, \<open>seen\<close> holding the events already read, the most
  recent first: every \<^verbatim>\<open>tree.insert\<close> comes right after the flush of its metadata
  block and the flush of its key.
\<close>

fun flushed_before :: "nat \<Rightarrow> event list \<Rightarrow> event list \<Rightarrow> bool" where
  "flushed_before sz seen [] = True"
| "flushed_before sz seen (TreeInsert k m # es) =
     (take 2 seen = [Clflush (KeyBytes k) 4, Clflush (MetaBlock m) sz]
      \<and> flushed_before sz (TreeInsert k m # seen) es)"
| "flushed_before sz seen (e # es) = flushed_before sz (e # seen) es"

section \<open>Index: the effects of Insert, the background consumer, AddQueue and Get\<close>

declare drain.simps [simp del]

lemma trace_emit: "trace (emit es st) = trace st @ es"
  by (simp add: emit_def)

lemma queue_emit: "queue (emit es st) = queue st"
  by (simp add: emit_def)

lemma trace_Index_Insert:
  "trace (Index_Insert sz st k m) =
     trace st @ [Clflush (MetaBlock m) sz, Clflush (KeyBytes k) 4, TreeInsert k m]"
  by (simp add: Index_Insert_def trace_emit)

lemma apply_entry_emit: "apply_entry sz st e = emit (entry_events sz e) st"
  by (simp add: apply_entry_def entry_events_def Index_Insert_def Index_Update_def emit_def)

text \<open>One turn of the draining loop takes the front entry off the queue and applies it.\<close>

lemma drain_step:
  "drain sz (st\<lparr>queue := e # es\<rparr>) = drain sz ((apply_entry sz st e)\<lparr>queue := es\<rparr>)"
  by (cases st, subst drain.simps)
     (simp add: apply_entry_def Index_Insert_def Index_Update_def emit_def Let_def)

lemma drain_foldl:
  "drain sz (st\<lparr>queue := es\<rparr>) = (foldl (apply_entry sz) st es)\<lparr>queue := []\<rparr>"
proof (induction es arbitrary: st)
  case Nil
  show ?case by (subst drain.simps) simp
next
  case (Cons e es)
  show ?case by (simp add: drain_step Cons.IH)
qed

lemma drain_eq: "drain sz st = (foldl (apply_entry sz) st (queue st))\<lparr>queue := []\<rparr>"
  using drain_foldl [where st = st and es = "queue st" and sz = sz] by simp

lemma trace_foldl_apply:
  "trace (foldl (apply_entry sz) st es) = trace st @ concat (map (entry_events sz) es)"
  by (induction es arbitrary: st) (simp_all add: apply_entry_emit trace_emit)

lemma flushed_before_append:
  "flushed_before sz seen (es @ fs) =
     (flushed_before sz seen es \<and> flushed_before sz (rev es @ seen) fs)"
  by (induction sz seen es rule: flushed_before.induct) simp_all

lemma flushed_before_entries: "flushed_before sz seen (concat (map (entry_events sz) es))"
  by (induction es arbitrary: seen) (simp_all add: flushed_before_append entry_events_def)

text \<open>
  C4. A call of \<^verbatim>\<open>Index::Insert\<close> adds to the trace exactly the flush of
  \<^verbatim>\<open>sizeof(IndexMeta)\<close> bytes at the metadata block, then the flush of the 4 bytes of the
  key, then the \<^verbatim>\<open>tree.insert\<close>, in this order and nothing after it; and in the trace of
  a whole drain of any queue, every \<^verbatim>\<open>tree.insert\<close> stands right after its two flushes.
\<close>

theorem Index_Insert_flush_before_publish:
  "trace (Index_Insert sz st k m) =
     trace st @ [Clflush (MetaBlock m) sz, Clflush (KeyBytes k) 4, TreeInsert k m]
   \<and> flushed_before sz [] (trace (drain sz (Index_new\<lparr>queue := q\<rparr>)))"
  by (simp add: trace_Index_Insert drain_eq trace_foldl_apply Index_new_def
      flushed_before_entries)

lemma queue_foldl_AsyncInsert: "queue (foldl AsyncInsert st es) = queue st @ es"
  by (induction es arbitrary: st) (simp_all add: AsyncInsert_def Let_def emit_def)

text \<open>
  C6. On a queue that is not empty, one turn of \<^verbatim>\<open>Runner\<close> completes; it has applied
  the entries from the front of the queue to its back, \<^verbatim>\<open>Insert(key, meta)\<close> for an entry
  whose \<^verbatim>\<open>prev_file_number\<close> is 0 and \<^verbatim>\<open>Update(key, prev_file_number, meta)\<close> for any
  other, and it leaves the queue empty. \<^verbatim>\<open>AsyncInsert\<close> puts each entry at the back, so
  the front of the queue is the entry enqueued first.
\<close>

theorem Runner_turn_drains_in_order:
  assumes "queue st \<noteq> []"
  shows "Runner_turn sz st =
           Completed
             (emit [Unlock] ((foldl (apply_entry sz) (emit [Lock] st) (queue st))\<lparr>queue := []\<rparr>))
         \<and> queue
             (emit [Unlock] ((foldl (apply_entry sz) (emit [Lock] st) (queue st))\<lparr>queue := []\<rparr>))
             = []
         \<and> trace
             (emit [Unlock] ((foldl (apply_entry sz) (emit [Lock] st) (queue st))\<lparr>queue := []\<rparr>))
             = trace st @ [Lock] @ concat (map (entry_events sz) (queue st)) @ [Unlock]
         \<and> queue (foldl AsyncInsert st es) = queue st @ es"
  using assms
  by (simp add: Runner_turn_def Let_def drain_eq queue_emit trace_emit trace_foldl_apply
      queue_foldl_AsyncInsert)

theorem Runner_turn_drains_in_order_witness:
  "queue
     (foldl AsyncInsert Index_new
        [\<lparr>ukey = 42, prev_file_number = 0, meta = 100\<rparr>,
         \<lparr>ukey = 42, prev_file_number = 7, meta = 200\<rparr>]) \<noteq> []
   \<and> Runner_turn 16
     (foldl AsyncInsert Index_new
        [\<lparr>ukey = 42, prev_file_number = 0, meta = 100\<rparr>,
         \<lparr>ukey = 42, prev_file_number = 7, meta = 200\<rparr>])
   = Completed
       \<lparr>queue = [], bgstarted = True, free = True,
        trace = [Lock, CreateThread, Signal, Unlock, Lock, Unlock, Lock,
                 Clflush (MetaBlock 100) 16, Clflush (KeyBytes 42) 4, TreeInsert 42 100,
                 TreeUpdate 42 7 200, Unlock]\<rparr>"
  using Runner_turn_drains_in_order
    [of "foldl AsyncInsert Index_new
           [\<lparr>ukey = 42, prev_file_number = 0, meta = 100\<rparr>,
            \<lparr>ukey = 42, prev_file_number = 7, meta = 200\<rparr>]" 16 "[]"]
  by (simp add: AsyncInsert_def Index_new_def emit_def Let_def apply_entry_def
      Index_Insert_def Index_Update_def)

text \<open>
  C9. On an index whose queue is empty, \<^verbatim>\<open>AddQueue\<close> returns with the queue holding the
  caller's batch, element for element in the caller's order (and the caller's deque
  empty); on any other index the \<^verbatim>\<open>assert\<close> fails.
\<close>

theorem AddQueue_hands_over_batch:
  "(queue st = [] \<longrightarrow> (\<exists>st'. AddQueue st batch = Ok (st', []) \<and> queue st' = batch))
   \<and> (queue st \<noteq> [] \<longrightarrow> AddQueue st batch = Fault AssertFail)"
  by (auto simp: AddQueue_def Let_def emit_def)

theorem AddQueue_hands_over_batch_witness:
  "queue Index_new = []
   \<and> (\<exists>st'. AddQueue Index_new
              [\<lparr>ukey = 1, prev_file_number = 0, meta = 10\<rparr>,
               \<lparr>ukey = 2, prev_file_number = 5, meta = 20\<rparr>] = Ok (st', [])
          \<and> queue st' = [\<lparr>ukey = 1, prev_file_number = 0, meta = 10\<rparr>,
                          \<lparr>ukey = 2, prev_file_number = 5, meta = 20\<rparr>])
   \<and> queue (Index_new\<lparr>queue := [\<lparr>ukey = 3, prev_file_number = 0, meta = 30\<rparr>]\<rparr>) \<noteq> []
   \<and> AddQueue (Index_new\<lparr>queue := [\<lparr>ukey = 3, prev_file_number = 0, meta = 30\<rparr>]\<rparr>) []
       = Fault AssertFail"
  using AddQueue_hands_over_batch
    [of Index_new "[\<lparr>ukey = 1, prev_file_number = 0, meta = 10\<rparr>,
                    \<lparr>ukey = 2, prev_file_number = 5, meta = 20\<rparr>]"]
    AddQueue_hands_over_batch
    [of "Index_new\<lparr>queue := [\<lparr>ukey = 3, prev_file_number = 0, meta = 30\<rparr>]\<rparr>" "[]"]
  by (simp add: Index_new_def)







section \<open>PersistentSkiplist: the size counter\<close>

declare link_sentinels.simps [simp del] insert_links.simps [simp del]
  erase_links.simps [simp del]

lemma andThen_eq_Ok: "(andThen m f = Ok y) = (\<exists>x. m = Ok x \<and> f x = Ok y)"
  by (cases m) auto

lemma same_contents_refl: "same_contents s s"
  by (simp add: same_contents_def)

lemma same_contents_trans: "same_contents s s1 \<Longrightarrow> same_contents s1 s2 \<Longrightarrow> same_contents s s2"
  by (simp add: same_contents_def)

lemma deref_Ok: "deref h p = Ok n \<Longrightarrow> \<exists>a. p = Some a \<and> a < length h \<and> n = h ! a"
  by (auto simp: deref_def split: option.splits if_splits)

lemma map_update_field:
  "a < length h \<Longrightarrow> f n = f (h ! a) \<Longrightarrow> map f (h[a := n]) = map f h"
  by (simp add: map_update list_update_same_conv)

lemma set_next_same: "set_next s p i q = Ok s' \<Longrightarrow> same_contents s s'"
  by (auto simp: set_next_def andThen_eq_Ok same_contents_def map_update_field
      dest!: deref_Ok split: option.splits)

lemma set_prev_same: "set_prev s p i q = Ok s' \<Longrightarrow> same_contents s s'"
  by (auto simp: set_prev_def andThen_eq_Ok same_contents_def map_update_field
      dest!: deref_Ok split: option.splits)

lemma compare_key_same: "compare_key s p k = Ok (s', c) \<Longrightarrow> same_contents s s'"
  by (auto simp: compare_key_def andThen_eq_Ok same_contents_def split: option.splits)

lemma fge_walk_same: "fge_walk fuel s k node i = Ok (s', n) \<Longrightarrow> same_contents s s'"
proof (induction fuel arbitrary: s node)
  case 0
  then show ?case by simp
next
  case (Suc fuel)
  then show ?case
    by (auto simp: andThen_eq_Ok same_contents_refl split: if_splits
        dest!: compare_key_same intro: same_contents_trans)
qed

lemma fge_levels_same: "fge_levels fuel i s k node = Ok (s', n) \<Longrightarrow> same_contents s s'"
proof (induction i arbitrary: s node)
  case 0
  then show ?case by (simp add: same_contents_refl)
next
  case (Suc i)
  then show ?case
    by (auto simp: andThen_eq_Ok dest!: fge_walk_same intro: same_contents_trans)
qed

lemma FindGreaterOrEqual_same: "FindGreaterOrEqual fuel s k = Ok (s', n) \<Longrightarrow> same_contents s s'"
  by (auto simp: FindGreaterOrEqual_def andThen_eq_Ok dest: fge_levels_same)

lemma insert_links_same:
  "insert_links fuel s new_node lvl i nn pn = Ok s' \<Longrightarrow> same_contents s s'"
proof (induction fuel s new_node lvl i nn pn rule: insert_links.induct)
  case (1 fuel s new_node lvl i next_node prev_node)
  show ?case
  proof (cases "i < int lvl")
    case False
    with "1.prems" show ?thesis
      by (subst (asm) insert_links.simps) (simp add: same_contents_refl)
  next
    case True
    from "1.prems" True obtain n1 p1 s1 s2 s3 s4 where
      a: "climb_next fuel s next_node i = Ok n1" and b: "climb_prev fuel s prev_node i = Ok p1"
      and c: "set_next s new_node i n1 = Ok s1" and d: "set_prev s1 n1 i new_node = Ok s2"
      and e: "set_prev s2 new_node i p1 = Ok s3" and f: "set_next s3 p1 i new_node = Ok s4"
      and g: "insert_links fuel s4 new_node lvl (i + 1) n1 p1 = Ok s'"
      by (subst (asm) insert_links.simps) (auto simp: andThen_eq_Ok)
    have "same_contents s4 s'"
      using "1.IH" [OF True a b c d e f g] .
    moreover have "same_contents s s4"
      using c d e f by (blast intro: same_contents_trans dest: set_next_same set_prev_same)
    ultimately show ?thesis by (rule same_contents_trans [rotated])
  qed
qed

lemma andThenE:
  assumes "andThen m f = Ok y"
  obtains x where "m = Ok x" and "f x = Ok y"
  using assms by (cases m) auto

lemma Insert_size:
  assumes "Insert fuel s k v lvl = Ok (s', p)"
  shows "current_size s' = (current_size s + (length k + length v)) mod 2 ^ 64"
proof -
  define grow where "grow s2 = s2\<lparr>heap := heap s2 @ [new_Node k v lvl]\<rparr>" for s2 :: skiplist
  define raise where
    "raise s3 = (if lvl > current_level s3 then s3\<lparr>current_level := lvl\<rparr> else s3)"
    for s3 :: skiplist
  from assms obtain r1 where fge: "FindGreaterOrEqual fuel s k = Ok r1"
    and t1: "(case r1 of (s1, node) \<Rightarrow>
       andThen (get_prev s1 node 0) (\<lambda>prev_node.
       andThen (compare_key s1 node k) (\<lambda>(s2, c).
       andThen (if c = 0 then get_next s2 node 0 else Ok node) (\<lambda>next_node.
         andThen (insert_links fuel (raise (grow s2)) (Some (length (heap s2))) lvl 0
                    next_node prev_node) (\<lambda>s5.
         andThen (deref (heap s5) (Some (length (heap s2)))) (\<lambda>n.
         Ok (s5\<lparr>current_size := (current_size s5 + GetSize n) mod 2 ^ 64\<rparr>,
             Some (length (heap s2))))))))) = Ok (s', p)"
    unfolding Insert_def grow_def raise_def Let_def prod.case by (erule andThenE)
  obtain s1 node where r1: "r1 = (s1, node)" by (cases r1)
  from t1 [unfolded r1 prod.case] obtain prev_node r2 where
    cmp: "compare_key s1 node k = Ok r2"
    and t2: "(case r2 of (s2, c) \<Rightarrow>
       andThen (if c = 0 then get_next s2 node 0 else Ok node) (\<lambda>next_node.
         andThen (insert_links fuel (raise (grow s2)) (Some (length (heap s2))) lvl 0
                    next_node prev_node) (\<lambda>s5.
         andThen (deref (heap s5) (Some (length (heap s2)))) (\<lambda>n.
         Ok (s5\<lparr>current_size := (current_size s5 + GetSize n) mod 2 ^ 64\<rparr>,
             Some (length (heap s2))))))) = Ok (s', p)"
    by (elim andThenE) blast
  obtain s2 c where r2: "r2 = (s2, c)" by (cases r2)
  from t2 [unfolded r2 prod.case] obtain next_node s5 n where
    links: "insert_links fuel (raise (grow s2)) (Some (length (heap s2))) lvl 0
              next_node prev_node = Ok s5"
    and n: "deref (heap s5) (Some (length (heap s2))) = Ok n"
    and s': "s' = s5\<lparr>current_size := (current_size s5 + GetSize n) mod 2 ^ 64\<rparr>"
    by (elim andThenE) auto
  have 1: "same_contents s s2"
    using fge cmp unfolding r1 r2
    by (blast intro: same_contents_trans dest: FindGreaterOrEqual_same compare_key_same)
  have h4: "heap (raise (grow s2)) = heap s2 @ [new_Node k v lvl]"
    and z4: "current_size (raise (grow s2)) = current_size s2"
    by (simp_all add: raise_def grow_def)
  have 2: "same_contents (raise (grow s2)) s5"
    using links by (rule insert_links_same)
  have "map key (heap s5) = map key (heap s2) @ [k]" "map val (heap s5) = map val (heap s2) @ [v]"
    using 2 h4 by (simp_all add: same_contents_def new_Node_def)
  moreover have nth: "n = heap s5 ! length (heap s2)" and len: "length (heap s2) < length (heap s5)"
    using n by (auto dest: deref_Ok)
  ultimately have "key n = k" "val n = v"
    by (metis length_map nth_append_length nth_map)+
  then have "GetSize n = (length k + length v) mod 2 ^ 64"
    by (simp add: GetSize_def)
  moreover have "current_size s5 = current_size s"
    using 1 2 z4 by (simp add: same_contents_def)
  ultimately show ?thesis
    by (simp add: s' mod_add_right_eq)
qed


lemma erase_links_same: "erase_links fuel s lv left right = Ok s' \<Longrightarrow> same_contents s s'"
proof (induction fuel s lv left right rule: erase_links.induct)
  case (1 fuel s lv left right)
  show ?case
  proof (cases "lv < int (current_level s)")
    case False
    with "1.prems" show ?thesis
      by (subst (asm) erase_links.simps) (simp add: same_contents_refl)
  next
    case True
    from "1.prems" True obtain s1 s2 l1 r1 where
      a: "set_next s left lv right = Ok s1" and b: "set_prev s1 right lv left = Ok s2"
      and c: "retreat_left fuel s2 left lv = Ok l1" and d: "advance_right fuel s2 right lv = Ok r1"
      and e: "erase_links fuel s2 (lv + 1) l1 r1 = Ok s'"
      by (subst (asm) erase_links.simps) (auto simp: andThen_eq_Ok)
    have "same_contents s2 s'"
      using "1.IH" [OF True a b c d e] .
    moreover have "same_contents s s2"
      using a b by (blast intro: same_contents_trans dest: set_next_same set_prev_same)
    ultimately show ?thesis by (rule same_contents_trans [rotated])
  qed
qed

lemma shrink_level_same: "shrink_level fuel s = Ok s' \<Longrightarrow> same_contents s s'"
proof (induction fuel arbitrary: s)
  case 0
  then show ?case by simp
next
  case (Suc fuel)
  have "same_contents s (decrement_level s)"
    by (simp add: same_contents_def decrement_level_def)
  with Suc show ?case
    by (auto simp: andThen_eq_Ok same_contents_refl split: if_splits
        intro: same_contents_trans)
qed

lemma Erase_size: "Erase fuel s a b = Ok s' \<Longrightarrow> current_size s' = current_size s"
  by (auto simp: Erase_def andThen_eq_Ok same_contents_def
      dest!: erase_links_same shrink_level_same)

lemma PersistentSkiplist_size: "PersistentSkiplist cmp h = Ok s \<Longrightarrow> current_size s = 0"
  by (auto simp: PersistentSkiplist_def MakeNode_def andThen_eq_Ok)

lemma do_calls_failed:
  "do_calls fuel (Fault e) cs = Fault e" "do_calls fuel Timeout cs = Timeout"
  by (induction cs) simp_all

lemma do_call_size:
  assumes "do_call fuel s c = Ok s'" and "current_size s = n mod 2 ^ 64"
  shows "current_size s' = (n + inserted_bytes [c]) mod 2 ^ 64"
proof (cases c)
  case (CallInsert k v lvl)
  with assms(1) obtain p where "Insert fuel s k v lvl = Ok (s', p)"
    by (auto simp: andThen_eq_Ok)
  then have "current_size s' = (current_size s + (length k + length v)) mod 2 ^ 64"
    by (rule Insert_size)
  then show ?thesis
    using assms(2) CallInsert by (simp add: inserted_bytes_def mod_add_left_eq)
next
  case (CallErase a b)
  with assms show ?thesis
    by (simp add: inserted_bytes_def Erase_size)
qed

lemma inserted_bytes_Cons: "inserted_bytes (c # cs) = inserted_bytes [c] + inserted_bytes cs"
  by (simp add: inserted_bytes_def)

lemma do_calls_size:
  "do_calls fuel (Ok s0) cs = Ok s \<Longrightarrow> current_size s0 = n mod 2 ^ 64 \<Longrightarrow>
   current_size s = (n + inserted_bytes cs) mod 2 ^ 64"
proof (induction cs arbitrary: s0 n)
  case Nil
  then show ?case by (simp add: inserted_bytes_def)
next
  case (Cons c cs)
  from Cons.prems(1) obtain s1 where s1: "do_call fuel s0 c = Ok s1"
    by (cases "do_call fuel s0 c") (simp_all add: do_calls_failed)
  with Cons.prems(1) have rest: "do_calls fuel (Ok s1) cs = Ok s" by simp
  have "current_size s1 = (n + inserted_bytes [c]) mod 2 ^ 64"
    using s1 Cons.prems(2) by (rule do_call_size)
  from Cons.IH [OF rest this] show ?case
    by (simp add: inserted_bytes_Cons [of c cs] add.assoc)
qed

text \<open>
  C2, as the code has it. In every state reached from a freshly constructed skiplist by
  calls of \<^verbatim>\<open>Insert\<close> and \<^verbatim>\<open>Erase\<close> that returned, \<^verbatim>\<open>ApproximateMemoryUsage\<close> is the
  sum, modulo \<open>2 ^ 64\<close>, of key length plus value length over all the \<^verbatim>\<open>Insert\<close> calls
  made: \<^verbatim>\<open>Erase\<close> leaves the counter as it is.
\<close>

theorem current_size_counts_inserted_bytes:
  assumes "size_after (do_calls fuel (PersistentSkiplist cmp h) cs) = Ok n"
  shows "n = inserted_bytes cs mod 2 ^ 64"
proof -
  from assms obtain s where s: "do_calls fuel (PersistentSkiplist cmp h) cs = Ok s"
    and n: "n = current_size s"
    by (auto simp: size_after_def andThen_eq_Ok ApproximateMemoryUsage_def)
  from s obtain s0 where s0: "PersistentSkiplist cmp h = Ok s0"
    by (cases "PersistentSkiplist cmp h") (simp_all add: do_calls_failed)
  then have "current_size s0 = 0 mod 2 ^ 64"
    by (simp add: PersistentSkiplist_size)
  with s [unfolded s0] have "current_size s = (0 + inserted_bytes cs) mod 2 ^ 64"
    by (rule do_calls_size)
  with n show ?thesis by simp
qed

section \<open>PersistentSkiplist: runs on concrete inputs\<close>

text \<open>
  Rewriting a run: the steps of an operation are evaluated in program order, each
  continuation only once the step before it has returned, and the loops unfold on
  numerals of fuel.
\<close>

lemma andThen_weak_cong: "m = m' \<Longrightarrow> andThen m f = andThen m' f"
  by simp

lemmas fuel_numeral =
  fge_walk.simps(2) [of "pred_numeral n", folded numeral_eq_Suc]
  climb_next.simps(2) [of "pred_numeral n", folded numeral_eq_Suc]
  climb_prev.simps(2) [of "pred_numeral n", folded numeral_eq_Suc]
  retreat_left.simps(2) [of "pred_numeral n", folded numeral_eq_Suc]
  advance_right.simps(2) [of "pred_numeral n", folded numeral_eq_Suc]
  shrink_level.simps(2) [of "pred_numeral n", folded numeral_eq_Suc]
  level0_walk.simps(2) [of "pred_numeral n", folded numeral_eq_Suc]
  adopt_loop.simps(2) [of "pred_numeral n", folded numeral_eq_Suc]
  fge_levels.simps(2) [of _ "pred_numeral n", folded numeral_eq_Suc]
  for n

lemmas run =
  fuel_numeral link_sentinels.simps insert_links.simps erase_links.simps
  max_level_def set_next_def set_prev_def get_next_def get_prev_def get_level_def
  deref_def vec_at_def new_Node_def MakeNode_def PersistentSkiplist_def compare_key_def
  key_compare_def compare_nodes_def FindGreaterOrEqual_def Find_def Insert_def Erase_def
  GetSize_def shrink_test_def decrement_level_def PersistentSkiplist_adopt_def
  ApproximateMemoryUsage_def live_nodes_def live_keys_def live_levels_def live_bytes_def
  level_after_def size_after_def sentinels_def found_def compared_by_Find_def

text \<open>
  The keys \<open>''b''\<close>, \<open>''a''\<close>, \<open>''c''\<close> inserted in this order at the levels 1, 2 and 3:
  the walk along \<^verbatim>\<open>next[0]\<close> meets them in the comparator's order, and \<^verbatim>\<open>Find\<close>
  returns the node of \<open>''a''\<close>, the second allocated.
\<close>

lemma insert_then_find:
  "live_keys 4
     (do_calls 4 (PersistentSkiplist bytewise [])
        [CallInsert ''b'' ''1'' 1, CallInsert ''a'' ''2'' 2, CallInsert ''c'' ''3'' 3])
     = Ok [''a'', ''b'', ''c'']
   \<and> found 4
       (do_calls 4 (PersistentSkiplist bytewise [])
          [CallInsert ''b'' ''1'' 1, CallInsert ''a'' ''2'' 2, CallInsert ''c'' ''3'' 3]) ''a''
     = Ok (Some 3)"
  by (simp add: run cong: andThen_weak_cong)

text \<open>
  Two nodes inserted at level 1, then the second one (at address 3) erased: the counter
  stands at 4 bytes.
\<close>

lemma size_after_erase:
  "size_after
     (do_calls 4 (PersistentSkiplist bytewise [])
        [CallInsert ''a'' ''x'' 1, CallInsert ''b'' ''y'' 1, CallErase (Some 3) (Some 3)])
     = Ok 4"
  by (simp add: run cong: andThen_weak_cong)

theorem current_size_counts_inserted_bytes_witness:
  "size_after
     (do_calls 4 (PersistentSkiplist bytewise [])
        [CallInsert ''a'' ''x'' 1, CallInsert ''b'' ''y'' 1, CallErase (Some 3) (Some 3)])
     = Ok 4
   \<and> (4 :: nat)
       = inserted_bytes
           [CallInsert ''a'' ''x'' 1, CallInsert ''b'' ''y'' 1, CallErase (Some 3) (Some 3)]
         mod 2 ^ 64"
  using current_size_counts_inserted_bytes [OF size_after_erase] size_after_erase
  by simp

text \<open>
  C2, as the spec states it, fails: after the two inserts and the erase above the counter
  is 4, and the one node still met on the walk along \<^verbatim>\<open>next[0]\<close> holds 2 bytes.
\<close>

theorem current_size_not_live_bytes:
  "size_after
     (do_calls 4 (PersistentSkiplist bytewise [])
        [CallInsert ''a'' ''x'' 1, CallInsert ''b'' ''y'' 1, CallErase (Some 3) (Some 3)])
     = Ok 4
   \<and> live_bytes 4
       (do_calls 4 (PersistentSkiplist bytewise [])
          [CallInsert ''a'' ''x'' 1, CallInsert ''b'' ''y'' 1, CallErase (Some 3) (Some 3)])
     = Ok 2"
  by (simp add: size_after_erase) (simp add: run cong: andThen_weak_cong)

text \<open>
  C1, on the code. \<^verbatim>\<open>Insert\<close> of a key that is there already moves \<^verbatim>\<open>next_node\<close> past
  the equal node and leaves \<^verbatim>\<open>prev_node\<close> before it, so the new node takes the old
  one's place at level 0. After the first insert of \<open>''k''\<close> the walk from the head meets
  the node at address 2; after the second it meets the node at address 3 only, which is
  also the node \<^verbatim>\<open>Find\<close> returns.
\<close>

theorem duplicate_Insert_unlinks_older_node:
  "live_nodes 4 (do_calls 4 (PersistentSkiplist bytewise []) [CallInsert ''k'' ''v1'' 1])
     = Ok [Some 2]
   \<and> live_nodes 4
       (do_calls 4 (PersistentSkiplist bytewise [])
          [CallInsert ''k'' ''v1'' 1, CallInsert ''k'' ''v2'' 1])
     = Ok [Some 3]
   \<and> found 4
       (do_calls 4 (PersistentSkiplist bytewise [])
          [CallInsert ''k'' ''v1'' 1, CallInsert ''k'' ''v2'' 1]) ''k''
     = Ok (Some 3)"
  by (simp add: run cong: andThen_weak_cong)

text \<open>
  C3, on the code. The shrinking loop of \<^verbatim>\<open>Erase\<close> tests the level \<^verbatim>\<open>current_level\<close>,
  one above the highest level in use. With two nodes of level 1, \<^verbatim>\<open>current_level\<close> is 1;
  erasing the second leaves it at 0 while the node that stays has level 1. Erasing the
  only node of a skiplist takes the counter from 1 to 0 and, the level 0 being empty now,
  once more: it wraps to \<open>2 ^ 64 - 1\<close>, the index of the next read of \<^verbatim>\<open>head->next\<close>.
\<close>

theorem Erase_shrinks_current_level_too_far:
  "level_after
     (do_calls 4 (PersistentSkiplist bytewise [])
        [CallInsert ''a'' ''x'' 1, CallInsert ''b'' ''y'' 1])
     = Ok 1
   \<and> level_after
       (do_calls 4 (PersistentSkiplist bytewise [])
          [CallInsert ''a'' ''x'' 1, CallInsert ''b'' ''y'' 1, CallErase (Some 3) (Some 3)])
     = Ok 0
   \<and> live_levels 4
       (do_calls 4 (PersistentSkiplist bytewise [])
          [CallInsert ''a'' ''x'' 1, CallInsert ''b'' ''y'' 1, CallErase (Some 3) (Some 3)])
     = Ok [1]
   \<and> do_calls 4 (PersistentSkiplist bytewise [])
        [CallInsert ''a'' ''x'' 1, CallErase (Some 2) (Some 2)]
     = Fault (OutOfRange 18446744073709551615)"
  by (simp add: run cong: andThen_weak_cong)

text \<open>
  C5, on the code. After the erase above \<^verbatim>\<open>current_level\<close> is 0, so the next
  \<^verbatim>\<open>FindGreaterOrEqual\<close> descends no level and returns the first node whatever the key:
  \<open>''b''\<close> is inserted before \<open>''a''\<close>.
\<close>

theorem Insert_after_Erase_breaks_order:
  "live_keys 4
     (do_calls 4 (PersistentSkiplist bytewise [])
        [CallInsert ''a'' ''x'' 1, CallInsert ''b'' ''y'' 1, CallErase (Some 3) (Some 3),
         CallInsert ''b'' ''y'' 1])
     = Ok [''b'', ''a'']"
  by (simp add: run cong: andThen_weak_cong)

text \<open>
  C8, on the code. A fresh skiplist, built in a memory of the nodes \<open>h\<close>, has its head at
  address \<open>length h\<close> and its tail right after it. \<^verbatim>\<open>Find\<close> compares its argument with
  the key of the node that \<^verbatim>\<open>FindGreaterOrEqual\<close> returned, and here that node is the
  tail, whatever the key and the comparator: the key of the tail is handed to the
  comparator, and a key that compares equal to the empty one is found in the tail. With
  the byte-wise order this is the empty key; inserting it reads \<^verbatim>\<open>tail->next[0]\<close>,
  which is null, and follows it.
\<close>

theorem Find_compares_key_of_tail:
  "sentinels (PersistentSkiplist cmp h) = Ok (Some (length h), Some (Suc (length h)))
   \<and> compared_by_Find fuel (PersistentSkiplist cmp h) k = Ok [Suc (length h)]
   \<and> found fuel (PersistentSkiplist cmp h) k
       = Ok (if cmp k [] = 0 then Some (Suc (length h)) else None)
   \<and> found 4 (PersistentSkiplist bytewise []) [] = Ok (Some 1)
   \<and> do_calls 4 (PersistentSkiplist bytewise []) [CallInsert [] ''v'' 1] = Fault NullDeref"
  by (simp add: run nth_append list_update_append cong: andThen_weak_cong)

text \<open>
  C10, on the code. Adoption of a chain with \<open>first = last\<close>, the node at address \<open>a\<close>,
  under a comparator that does not put a key before itself: the constructor returns, no
  node is met between the new head and the new tail, \<^verbatim>\<open>current_level\<close> is 0, and
  \<^verbatim>\<open>Find\<close> returns null for every key but those that compare equal to the empty key,
  for which it returns the tail.
\<close>

theorem adopted_single_node_is_not_linked:
  assumes "a < length h" and "\<not> cmp (key (h ! a)) (key (h ! a)) < 0"
  shows "sentinels (PersistentSkiplist_adopt (Suc fuel) cmp h (Some a) (Some a))
           = Ok (Some (length h), Some (Suc (length h)))
         \<and> live_nodes (Suc fuel) (PersistentSkiplist_adopt (Suc fuel) cmp h (Some a) (Some a))
           = Ok []
         \<and> level_after (PersistentSkiplist_adopt (Suc fuel) cmp h (Some a) (Some a)) = Ok 0
         \<and> found fuel (PersistentSkiplist_adopt (Suc fuel) cmp h (Some a) (Some a)) k
           = Ok (if cmp k [] = 0 then Some (Suc (length h)) else None)"
  using assms
  by (simp add: run nth_append list_update_append cong: andThen_weak_cong)

theorem adopted_single_node_is_not_linked_witness:
  "0 < length [new_Node ''k'' ''v'' 1]
   \<and> \<not> bytewise (key ([new_Node ''k'' ''v'' 1] ! 0)) (key ([new_Node ''k'' ''v'' 1] ! 0)) < 0
   \<and> sentinels (PersistentSkiplist_adopt 4 bytewise [new_Node ''k'' ''v'' 1] (Some 0) (Some 0))
     = Ok (Some 1, Some 2)
   \<and> live_nodes 4
       (PersistentSkiplist_adopt 4 bytewise [new_Node ''k'' ''v'' 1] (Some 0) (Some 0))
     = Ok []
   \<and> level_after
       (PersistentSkiplist_adopt 4 bytewise [new_Node ''k'' ''v'' 1] (Some 0) (Some 0))
     = Ok 0
   \<and> found 3
       (PersistentSkiplist_adopt 4 bytewise [new_Node ''k'' ''v'' 1] (Some 0) (Some 0)) ''k''
     = Ok None
   \<and> found 3
       (PersistentSkiplist_adopt 4 bytewise [new_Node ''k'' ''v'' 1] (Some 0) (Some 0)) []
     = Ok (Some 2)"
  using adopted_single_node_is_not_linked [of 0 "[new_Node ''k'' ''v'' 1]" bytewise 3 "''k''"]
    adopted_single_node_is_not_linked [of 0 "[new_Node ''k'' ''v'' 1]" bytewise 3 "[]"]
  by (simp add: new_Node_def)

end
